theory Spec2Isabelle
  imports Complex_Main
begin

section \<open>Values of the host language\<close>

text \<open>
  The analytics engine of the marketplace backend (\<^verbatim>\<open>server.js\<close>) is written in
  JavaScript. Its functions are embedded here as HOL functions over the following model
  of the values they handle.

  \<^item> Numbers are exact rationals; the outcome of a division is a \<open>jsnum\<close>, which keeps
    the non-finite results \<open>NaN\<close> and \<open>Infinity\<close> apart from the finite ones.
  \<^item> A \<^verbatim>\<open>Date\<close> is its time value, milliseconds since the epoch, or \<open>None\<close> for
    an Invalid Date (what \<^verbatim>\<open>new Date(undefined)\<close> yields). Every comparison with an
    Invalid Date is false.
  \<^item> A thrown exception is the \<open>Inl\<close> branch of a sum.
\<close>

datatype js_error = TypeError string | SystemError string | SyntaxError string

datatype jsnum = Num rat | NaN | PosInfinity | NegInfinity

text \<open>The operator \<^verbatim>\<open>/\<close> on two finite numbers.\<close>

definition js_div :: "rat \<Rightarrow> rat \<Rightarrow> jsnum" where
  "js_div a b =
     (if b \<noteq> 0 then Num (a / b)
      else if a = 0 then NaN
      else if 0 < a then PosInfinity else NegInfinity)"

type_synonym jsdate = "int option"

definition date_ge :: "jsdate \<Rightarrow> jsdate \<Rightarrow> bool" where
  "date_ge a b = (case (a, b) of (Some x, Some y) \<Rightarrow> x \<ge> y | _ \<Rightarrow> False)"

definition date_le :: "jsdate \<Rightarrow> jsdate \<Rightarrow> bool" where
  "date_le a b = (case (a, b) of (Some x, Some y) \<Rightarrow> x \<le> y | _ \<Rightarrow> False)"

definition date_lt :: "jsdate \<Rightarrow> jsdate \<Rightarrow> bool" where
  "date_lt a b = (case (a, b) of (Some x, Some y) \<Rightarrow> x < y | _ \<Rightarrow> False)"

section \<open>The JSON file store: \<^verbatim>\<open>readData\<close>\<close>

text \<open>
  \<^verbatim>\<open>DATA_FILES\<close> maps the four collection names to paths under the data directory;
  any other name looks up \<^verbatim>\<open>undefined\<close>.
\<close>

definition DATA_FILES :: "string \<Rightarrow> string \<Rightarrow> string option" where
  "DATA_FILES DATA_DIR fileName =
     (if fileName \<in> {''users'', ''products'', ''orders'', ''categories''}
      then Some (DATA_DIR @ ''/'' @ fileName @ ''.json'') else None)"

text \<open>
  What \<^verbatim>\<open>readData\<close> does to the outside world, in order: reads of the file system and
  lines written by \<^verbatim>\<open>console.error\<close>.
\<close>

datatype event = ReadFileSync "string option" | ConsoleError string js_error

text \<open>
  \<^verbatim>\<open>fs.readFileSync\<close> and \<^verbatim>\<open>JSON.parse\<close> belong to the runtime: they are parameters,
  each returning either the exception it throws or its value. \<^verbatim>\<open>readFileSync\<close> of
  \<^verbatim>\<open>undefined\<close> throws a \<^verbatim>\<open>TypeError\<close>. The result pairs the trace of events with
  what the caller receives: \<open>Inl\<close> would be an exception leaving \<^verbatim>\<open>readData\<close>.
\<close>

definition readFileSync_path ::
  "(string \<Rightarrow> js_error + string) \<Rightarrow> string option \<Rightarrow> js_error + string" where
  "readFileSync_path readFileSync p =
     (case p of None \<Rightarrow> Inl (TypeError ''The path argument must be of type string'')
              | Some path \<Rightarrow> readFileSync path)"

definition readData ::
  "string \<Rightarrow> (string \<Rightarrow> js_error + string) \<Rightarrow> (string \<Rightarrow> js_error + 'a list) \<Rightarrow>
   string \<Rightarrow> event list \<times> (js_error + 'a list)" where
  "readData DATA_DIR readFileSync JSON_parse fileName =
     (let p = DATA_FILES DATA_DIR fileName in
      case readFileSync_path readFileSync p of
        Inl error \<Rightarrow> ([ReadFileSync p, ConsoleError fileName error], Inr [])
      | Inr data \<Rightarrow>
          (case JSON_parse data of
             Inl error \<Rightarrow> ([ReadFileSync p, ConsoleError fileName error], Inr [])
           | Inr v \<Rightarrow> ([ReadFileSync p], Inr v)))"

section \<open>Export: \<^verbatim>\<open>convertToCSV\<close>\<close>

text \<open>
  A flat record is the list of its own properties in enumeration order. A property value
  is a primitive; \<open>toString\<close> is the conversion \<^verbatim>\<open>'' + value\<close>. Numbers are restricted
  to integers here, whose decimal rendering is unambiguous. Properties inherited from
  \<^verbatim>\<open>Object.prototype\<close> are outside the model: a missing key reads \<^verbatim>\<open>undefined\<close>.
\<close>

datatype jsvalue = JUndefined | JNull | JBool bool | JInt int | JString string

type_synonym jsrecord = "(string \<times> jsvalue) list"

definition digit_char :: "nat \<Rightarrow> char" where
  "digit_char d = char_of (48 + d)"

fun nat_digits :: "nat \<Rightarrow> string" where
  "nat_digits n = (if n < 10 then [digit_char n] else nat_digits (n div 10) @ [digit_char (n mod 10)])"

declare nat_digits.simps [simp del]

definition int_toString :: "int \<Rightarrow> string" where
  "int_toString i = (if i < 0 then CHR ''-'' # nat_digits (nat (- i)) else nat_digits (nat i))"

fun toString :: "jsvalue \<Rightarrow> string" where
  "toString JUndefined = ''undefined''"
| "toString JNull = ''null''"
| "toString (JBool b) = (if b then ''true'' else ''false'')"
| "toString (JInt i) = int_toString i"
| "toString (JString s) = s"

text \<open>\<^verbatim>\<open>Object.keys(o)\<close> and the property read \<^verbatim>\<open>row[header]\<close>.\<close>

definition Object_keys :: "jsrecord \<Rightarrow> string list" where
  "Object_keys r = map fst r"

definition get_prop :: "jsrecord \<Rightarrow> string \<Rightarrow> jsvalue" where
  "get_prop r k = (case map_of r k of None \<Rightarrow> JUndefined | Some v \<Rightarrow> v)"

text \<open>\<^verbatim>\<open>Array.prototype.join\<close>: the empty array joins to the empty string.\<close>

fun join :: "string \<Rightarrow> string list \<Rightarrow> string" where
  "join sep [] = []"
| "join sep [x] = x"
| "join sep (x # y # ys) = x @ sep @ join sep (y # ys)"

abbreviation dquote :: char where "dquote \<equiv> CHR 0x22"
abbreviation newline :: char where "newline \<equiv> CHR 0x0A"
abbreviation comma :: char where "comma \<equiv> CHR 0x2C"

text \<open>\<^verbatim>\<open>s.replace(/"/g, '""')\<close> and the test \<^verbatim>\<open>/[,"\n]/.test(s)\<close>.\<close>

definition replace_quotes :: "string \<Rightarrow> string" where
  "replace_quotes s = concat (map (\<lambda>c. if c = dquote then [dquote, dquote] else [c]) s)"

definition has_special :: "string \<Rightarrow> bool" where
  "has_special s = (\<exists>c \<in> set s. c = comma \<or> c = dquote \<or> c = newline)"

definition csv_value :: "jsvalue \<Rightarrow> string" where
  "csv_value v =
     (let escaped = replace_quotes (toString v)
      in if has_special escaped then [dquote] @ escaped @ [dquote] else escaped)"

text \<open>
  The argument of \<^verbatim>\<open>convertToCSV\<close> is an array of records, a single record (which is
  wrapped into a one-element array), or \<^verbatim>\<open>undefined\<close> (an export of unknown type), on
  which \<^verbatim>\<open>Object.keys\<close> throws.
\<close>

datatype export_data = DataArray "jsrecord list" | DataObject jsrecord | DataUndefined

definition csv_row :: "string list \<Rightarrow> jsrecord \<Rightarrow> string" where
  "csv_row headers row = join [comma] (map (\<lambda>header. csv_value (get_prop row header)) headers)"

definition csv_of_records :: "jsrecord list \<Rightarrow> string" where
  "csv_of_records data =
     (case data of
        [] \<Rightarrow> []
      | first # _ \<Rightarrow>
          (let headers = Object_keys first;
               csvRows = [join [comma] headers] @ map (csv_row headers) data
           in join [newline] csvRows))"

definition convertToCSV :: "export_data \<Rightarrow> js_error + string" where
  "convertToCSV data =
     (case data of
        DataArray rows \<Rightarrow> Inr (csv_of_records rows)
      | DataObject r \<Rightarrow> Inr (csv_of_records [r])
      | DataUndefined \<Rightarrow> Inl (TypeError ''Cannot convert undefined or null to object''))"

section \<open>Calendar arithmetic of \<^verbatim>\<open>Date\<close>\<close>

text \<open>
  The server's local time zone is taken to be UTC, so local time is the time value
  itself. Day numbers and civil dates are converted by the usual proleptic Gregorian
  formulas (years of 365 days, leap days every 4th year except every 100th but every
  400th, eras of 146097 days, months counted from March).
\<close>

definition msPerDay :: int where
  "msPerDay = 24 * 60 * 60 * 1000"

definition days_from_civil :: "int \<Rightarrow> int \<Rightarrow> int \<Rightarrow> int" where
  "days_from_civil y m d =
     (let y' = (if m \<le> 2 then y - 1 else y);
          era = y' div 400;
          yoe = y' - era * 400;
          mp = (if m > 2 then m - 3 else m + 9);
          doy = (153 * mp + 2) div 5 + d - 1;
          doe = yoe * 365 + yoe div 4 - yoe div 100 + doy
      in era * 146097 + doe - 719468)"

definition civil_from_days :: "int \<Rightarrow> int \<times> int \<times> int" where
  "civil_from_days z =
     (let z' = z + 719468;
          era = z' div 146097;
          doe = z' - era * 146097;
          yoe = (doe - doe div 1460 + doe div 36524 - doe div 146096) div 365;
          y = yoe + era * 400;
          doy = doe - (365 * yoe + yoe div 4 - yoe div 100);
          mp = (5 * doy + 2) div 153;
          d = doy - (153 * mp + 2) div 5 + 1;
          m = (if mp < 10 then mp + 3 else mp - 9)
      in (if m \<le> 2 then y + 1 else y, m, d))"

text \<open>
  \<^verbatim>\<open>getFullYear\<close> and \<^verbatim>\<open>getMonth\<close> (0 to 11) of a valid time value.
\<close>

definition getFullYear :: "int \<Rightarrow> int" where
  "getFullYear t = (case civil_from_days (t div msPerDay) of (y, m, d) \<Rightarrow> y)"

definition getMonth :: "int \<Rightarrow> int" where
  "getMonth t = (case civil_from_days (t div msPerDay) of (y, m, d) \<Rightarrow> m - 1)"

text \<open>
  The day number of the first day of month \<open>n\<close> of year \<open>y\<close>, where \<open>n\<close> counts from 0
  and may run over into the neighbouring years (ECMAScript's \<^verbatim>\<open>MakeDay(y, n, 1)\<close>).
  \<^verbatim>\<open>getDate\<close> is the day of the month, counted from the first day of the month.
\<close>

definition first_of_month :: "int \<Rightarrow> int \<Rightarrow> int" where
  "first_of_month y n = days_from_civil (y + n div 12) (n mod 12 + 1) 1"

definition getDate :: "int \<Rightarrow> int" where
  "getDate t = t div msPerDay - first_of_month (getFullYear t) (getMonth t) + 1"

text \<open>
  \<^verbatim>\<open>d.setMonth(month)\<close> keeps the year, the day of the month and the time within the
  day, and lets the month number run over into the neighbouring years; a day of the month
  past the end of the target month runs over into the next month.
\<close>

definition setMonth :: "int \<Rightarrow> int \<Rightarrow> int" where
  "setMonth t month =
     (first_of_month (getFullYear t) month + getDate t - 1) * msPerDay + t mod msPerDay"

text \<open>
  \<^verbatim>\<open>d.setDate(d.getDate() + n)\<close> moves the date by \<open>n\<close> whole days and keeps the time
  within the day; without daylight saving that is \<open>n\<close> times 86400000 ms.
\<close>

definition addDays :: "jsdate \<Rightarrow> int \<Rightarrow> jsdate" where
  "addDays d n = (case d of None \<Rightarrow> None | Some t \<Rightarrow> Some (t + n * msPerDay))"

text \<open>\<^verbatim>\<open>d.setMonth(d.getMonth() + n)\<close>; an Invalid Date stays invalid.\<close>

definition addMonths :: "jsdate \<Rightarrow> int \<Rightarrow> jsdate" where
  "addMonths d n = (case d of None \<Rightarrow> None | Some t \<Rightarrow> Some (setMonth t (getMonth t + n)))"




section \<open>Orders and users\<close>

text \<open>
  The fields of an order and of a user that the analytics read. An absent (or falsy)
  field is \<open>None\<close>; a date field holds the time value its ISO string parses to.
\<close>

record order =
  userId :: "string option"
  total :: "rat option"
  status :: string
  createdAt :: jsdate
  date :: jsdate

record user =
  user_id :: string
  user_createdAt :: jsdate
  lastLogin :: jsdate

text \<open>\<^verbatim>\<open>new Date(order.createdAt || order.date)\<close> and \<^verbatim>\<open>order.total || 0\<close>.\<close>

definition orderDate :: "order \<Rightarrow> jsdate" where
  "orderDate order = (case createdAt order of Some t \<Rightarrow> Some t | None \<Rightarrow> date order)"

definition total_or_0 :: "order \<Rightarrow> rat" where
  "total_or_0 order = (case total order of Some x \<Rightarrow> x | None \<Rightarrow> 0)"

section \<open>Dashboard figures\<close>

definition calculateTotalRevenue :: "order list \<Rightarrow> jsdate \<Rightarrow> jsdate \<Rightarrow> rat" where
  "calculateTotalRevenue orders start end =
     foldl (\<lambda>sum order. sum + total_or_0 order) 0
       (filter (\<lambda>order. date_ge (orderDate order) start \<and> date_le (orderDate order) end
                          \<and> status order = ''delivered'') orders)"


definition calculateAverageOrderValue :: "order list \<Rightarrow> jsdate \<Rightarrow> jsdate \<Rightarrow> jsnum" where
  "calculateAverageOrderValue orders start end =
     (let filteredOrders =
            filter (\<lambda>order. date_ge (orderDate order) start \<and> date_le (orderDate order) end
                             \<and> status order = ''delivered'') orders
      in if length filteredOrders = 0 then Num 0
         else js_div (foldl (\<lambda>sum order. sum + total_or_0 order) 0 filteredOrders)
                (of_nat (length filteredOrders)))"


text \<open>
  The two figures of the analytics dashboard's \<^verbatim>\<open>kpis\<close> object that come from the
  orders' totals.
\<close>

record kpis =
  totalRevenue :: rat
  avgOrderValue :: jsnum

definition dashboard_kpis :: "order list \<Rightarrow> jsdate \<Rightarrow> jsdate \<Rightarrow> kpis" where
  "dashboard_kpis orders start end =
     \<lparr> totalRevenue = calculateTotalRevenue orders start end,
       avgOrderValue = calculateAverageOrderValue orders start end \<rparr>"

text \<open>
  The admin dashboard-stats handler computes its own figures over all orders:
  \<^verbatim>\<open>orders.length > 0 ? totalRevenue / orders.filter(o => o.status === 'delivered').length : 0\<close>.
\<close>

definition stats_totalRevenue :: "order list \<Rightarrow> rat" where
  "stats_totalRevenue orders =
     foldl (\<lambda>sum order. sum + total_or_0 order) 0
       (filter (\<lambda>order. status order = ''delivered'') orders)"

definition stats_avgOrderValue :: "order list \<Rightarrow> jsnum" where
  "stats_avgOrderValue orders =
     (if length orders > 0
      then js_div (stats_totalRevenue orders)
             (of_nat (length (filter (\<lambda>order. status order = ''delivered'') orders)))
      else Num 0)"

section \<open>Trend buckets: \<^verbatim>\<open>generateTrendData\<close>\<close>


text \<open>The two ends of the bucket the loop builds for index \<open>i\<close>.\<close>

definition pointStart :: "string \<Rightarrow> jsdate \<Rightarrow> nat \<Rightarrow> jsdate" where
  "pointStart period start i =
     (if period = ''daily'' then addDays start (int i)
      else if period = ''weekly'' then addDays start (int i * 7)
      else if period = ''monthly'' then addMonths start (int i)
      else addMonths start (int i * 3))"





section \<open>Arrays\<close>

text \<open>
  \<^verbatim>\<open>Array.prototype.sort(compareFn)\<close> is a stable sort. The argument \<open>precedes a b\<close> stands
  for \<^verbatim>\<open>compareFn(a, b) < 0\<close>; a comparison that yields \<^verbatim>\<open>NaN\<close> counts as \<open>0\<close>. The model
  is the stable insertion sort: every stable sort agrees with it when the comparison is
  consistent.
\<close>

fun insert_sorted :: "('a \<Rightarrow> 'a \<Rightarrow> bool) \<Rightarrow> 'a \<Rightarrow> 'a list \<Rightarrow> 'a list" where
  "insert_sorted precedes x [] = [x]"
| "insert_sorted precedes x (y # ys) =
     (if precedes y x then y # insert_sorted precedes x ys else x # y # ys)"

definition array_sort :: "('a \<Rightarrow> 'a \<Rightarrow> bool) \<Rightarrow> 'a list \<Rightarrow> 'a list" where
  "array_sort precedes xs = foldr (insert_sorted precedes) xs []"

text \<open>\<^verbatim>\<open>xs.slice(a, b)\<close> and \<^verbatim>\<open>xs.slice(a)\<close> for indices that are not negative.\<close>

definition slice :: "nat \<Rightarrow> nat \<Rightarrow> 'a list \<Rightarrow> 'a list" where
  "slice a b xs = take (b - a) (drop a xs)"

definition slice_from :: "nat \<Rightarrow> 'a list \<Rightarrow> 'a list" where
  "slice_from a xs = drop a xs"

section \<open>Customer segmentation: \<^verbatim>\<open>segmentCustomers\<close>\<close>

text \<open>
  \<^verbatim>\<open>customerSpending\<close> is an object keyed by user id. It is the list of its entries in
  insertion order, which is the order \<^verbatim>\<open>Object.entries\<close> enumerates them in (user ids
  are not array indices: they start with \<^verbatim>\<open>user_\<close>).
\<close>

fun add_spending :: "string \<Rightarrow> rat \<Rightarrow> (string \<times> rat) list \<Rightarrow> (string \<times> rat) list" where
  "add_spending k v [] = [(k, 0 + v)]"
| "add_spending k v ((k', s) # rest) =
     (if k' = k then (k', s + v) # rest else (k', s) # add_spending k v rest)"

text \<open>One round of \<^verbatim>\<open>orders.forEach\<close>: orders without a (truthy) user id are skipped.\<close>

definition spend_step :: "(string \<times> rat) list \<Rightarrow> order \<Rightarrow> (string \<times> rat) list" where
  "spend_step acc order =
     (case userId order of
        None \<Rightarrow> acc
      | Some u \<Rightarrow> if u = [] then acc else add_spending u (total_or_0 order) acc)"

definition customerSpending :: "order list \<Rightarrow> (string \<times> rat) list" where
  "customerSpending orders = foldl spend_step [] orders"

text \<open>The comparison \<^verbatim>\<open>([,a], [,b]) => b - a\<close>: larger spend first.\<close>

definition sortedCustomers :: "order list \<Rightarrow> string list" where
  "sortedCustomers orders =
     map fst (array_sort (\<lambda>x y. snd y - snd x < 0) (customerSpending orders))"

definition highValueCount :: "order list \<Rightarrow> nat" where
  "highValueCount orders = nat \<lceil>of_nat (length (sortedCustomers orders)) * (2 / 10 :: rat)\<rceil>"

definition mediumValueCount :: "order list \<Rightarrow> nat" where
  "mediumValueCount orders = nat \<lceil>of_nat (length (sortedCustomers orders)) * (6 / 10 :: rat)\<rceil>"

text \<open>
  The membership lists of the \<^verbatim>\<open>segments\<close> object; the list of the segment \<^verbatim>\<open>new\<close> is
  the field \<open>newUsers\<close>.
\<close>

record segments =
  highValue :: "string list"
  mediumValue :: "string list"
  lowValue :: "string list"
  newUsers :: "string list"
  atRisk :: "string list"
  dormant :: "string list"

definition spend_segments :: "order list \<Rightarrow> segments" where
  "spend_segments orders =
     \<lparr> highValue = slice 0 (highValueCount orders) (sortedCustomers orders),
       mediumValue = slice (highValueCount orders)
                       (highValueCount orders + mediumValueCount orders) (sortedCustomers orders),
       lowValue = slice_from (highValueCount orders + mediumValueCount orders)
                    (sortedCustomers orders),
       newUsers = [], atRisk = [], dormant = [] \<rparr>"

text \<open>
  The most recent order of a user: the user's orders sorted by
  \<^verbatim>\<open>new Date(b.createdAt || b.date) - new Date(a.createdAt || a.date)\<close>, first element;
  \<^verbatim>\<open>undefined\<close> when the user has none.
\<close>

definition lastOrder :: "order list \<Rightarrow> user \<Rightarrow> order option" where
  "lastOrder orders user =
     (case array_sort (\<lambda>a b. date_lt (orderDate b) (orderDate a))
             (filter (\<lambda>ord. userId ord = Some (user_id user)) orders) of
        [] \<Rightarrow> None
      | x # _ \<Rightarrow> Some x)"

definition days_ms :: "int \<Rightarrow> int" where
  "days_ms n = n * 24 * 60 * 60 * 1000"

text \<open>One round of \<^verbatim>\<open>users.forEach\<close> in the recency pass; \<open>now\<close> is \<^verbatim>\<open>new Date()\<close>.\<close>

definition recency_step :: "int \<Rightarrow> order list \<Rightarrow> segments \<Rightarrow> user \<Rightarrow> segments" where
  "recency_step now orders segs user =
     (let thirtyDaysAgo = Some (now - days_ms 30);
          segs1 = (if date_ge (user_createdAt user) thirtyDaysAgo
                   then segs\<lparr>newUsers := newUsers segs @ [user_id user]\<rparr> else segs)
      in case lastOrder orders user of
           None \<Rightarrow> segs1
         | Some l \<Rightarrow>
             (let lastOrderDate = orderDate l;
                  sixtyDaysAgo = Some (now - days_ms 60);
                  oneTwentyDaysAgo = Some (now - days_ms 120)
              in if date_lt lastOrderDate sixtyDaysAgo \<and> date_ge lastOrderDate oneTwentyDaysAgo
                 then segs1\<lparr>atRisk := atRisk segs1 @ [user_id user]\<rparr>
                 else if date_lt lastOrderDate oneTwentyDaysAgo
                 then segs1\<lparr>dormant := dormant segs1 @ [user_id user]\<rparr>
                 else segs1))"

text \<open>The \<^verbatim>\<open>segments\<close> object after both passes, with the membership lists.\<close>

definition customer_segments :: "int \<Rightarrow> user list \<Rightarrow> order list \<Rightarrow> segments" where
  "customer_segments now users orders =
     foldl (recency_step now orders) (spend_segments orders) users"

text \<open>
  What \<^verbatim>\<open>segmentCustomers\<close> returns: one row per segment with its display name and the
  size of its membership list (the colour and the criteria text are constants).
\<close>

definition segmentCustomers :: "int \<Rightarrow> user list \<Rightarrow> order list \<Rightarrow> (string \<times> nat) list" where
  "segmentCustomers now users orders =
     (let segs = customer_segments now users orders in
      [(''High Value'', length (highValue segs)),
       (''Medium Value'', length (mediumValue segs)),
       (''Low Value'', length (lowValue segs)),
       (''New'', length (newUsers segs)),
       (''At Risk'', length (atRisk segs)),
       (''Dormant'', length (dormant segs))])"

section \<open>Cohort retention: \<^verbatim>\<open>analyzeRetention\<close>\<close>

record cohort =
  totalUsers :: nat
  month1 :: nat
  month2 :: nat
  month3 :: nat
  month6 :: nat
  month12 :: nat

text \<open>
  The key \<^verbatim>\<open>`${getFullYear()}-${String(getMonth() + 1).padStart(2, '0')}`\<close>; both parts
  of an Invalid Date print as \<^verbatim>\<open>NaN\<close>.
\<close>

definition padStart2 :: "string \<Rightarrow> string" where
  "padStart2 s = replicate (2 - length s) CHR ''0'' @ s"

definition cohortKey :: "jsdate \<Rightarrow> string" where
  "cohortKey joinDate =
     (case joinDate of
        None \<Rightarrow> ''NaN-NaN''
      | Some t \<Rightarrow> int_toString (getFullYear t) @ ''-'' @ padStart2 (int_toString (getMonth t + 1)))"

text \<open>
  \<^verbatim>\<open>Math.floor((firstOrderDate - joinDate) / (30 * 24 * 60 * 60 * 1000))\<close>; \<open>None\<close> is
  \<^verbatim>\<open>NaN\<close>, for which every comparison \<^verbatim>\<open>monthsSinceJoin <= k\<close> is false.
\<close>

definition monthsSinceJoin :: "jsdate \<Rightarrow> jsdate \<Rightarrow> int option" where
  "monthsSinceJoin firstOrderDate joinDate =
     (case (firstOrderDate, joinDate) of
        (Some a, Some b) \<Rightarrow> Some ((a - b) div days_ms 30)
      | _ \<Rightarrow> None)"

definition months_le :: "int option \<Rightarrow> int \<Rightarrow> bool" where
  "months_le m k = (case m of None \<Rightarrow> False | Some x \<Rightarrow> x \<le> k)"

text \<open>The cohorts object, as the list of its entries in insertion order.\<close>

fun update_cohort :: "string \<Rightarrow> (cohort \<Rightarrow> cohort) \<Rightarrow> (string \<times> cohort) list \<Rightarrow> (string \<times> cohort) list" where
  "update_cohort k f [] = []"
| "update_cohort k f ((k', c) # rest) =
     (if k' = k then (k', f c) # rest else (k', c) # update_cohort k f rest)"

definition count_if :: "bool \<Rightarrow> nat \<Rightarrow> nat" where
  "count_if b n = (if b then n + 1 else n)"

definition retention_step :: "order list \<Rightarrow> (string \<times> cohort) list \<Rightarrow> user \<Rightarrow> (string \<times> cohort) list" where
  "retention_step orders cohorts user =
     (let joinDate = user_createdAt user;
          key = cohortKey joinDate;
          cohorts1 = (if map_of cohorts key = None
                      then cohorts @ [(key, \<lparr> totalUsers = 0, month1 = 0, month2 = 0,
                                             month3 = 0, month6 = 0, month12 = 0 \<rparr>)]
                      else cohorts);
          cohorts2 = update_cohort key (\<lambda>c. c\<lparr>totalUsers := totalUsers c + 1\<rparr>) cohorts1
      in case filter (\<lambda>ord. userId ord = Some (user_id user)) orders of
           [] \<Rightarrow> cohorts2
         | first # _ \<Rightarrow>
             (let m = monthsSinceJoin (orderDate first) joinDate
              in update_cohort key
                   (\<lambda>c. c\<lparr> month1 := count_if (months_le m 1) (month1 c),
                            month2 := count_if (months_le m 2) (month2 c),
                            month3 := count_if (months_le m 3) (month3 c),
                            month6 := count_if (months_le m 6) (month6 c),
                            month12 := count_if (months_le m 12) (month12 c) \<rparr>) cohorts2))"

text \<open>
  \<^verbatim>\<open>x.toFixed(1)\<close> on a finite number: the nearest multiple of one tenth, the larger
  one of two that are equally near; a negative number is rounded by its magnitude. The
  result is the string of that decimal, kept here as the number it denotes.
\<close>

definition toFixed1 :: "rat \<Rightarrow> rat" where
  "toFixed1 x = (if x < 0 then - (of_int \<lfloor>- x * 10 + 1 / 2\<rfloor> / 10)
                 else of_int \<lfloor>x * 10 + 1 / 2\<rfloor> / 10)"

text \<open>\<^verbatim>\<open>((count / totalUsers) * 100).toFixed(1)\<close>, with the non-finite quotients kept.\<close>

definition percentage :: "nat \<Rightarrow> nat \<Rightarrow> jsnum" where
  "percentage count totalU =
     (case js_div (of_nat count) (of_nat totalU) of
        Num q \<Rightarrow> Num (toFixed1 (q * 100))
      | other \<Rightarrow> other)"

record cohort_row =
  row_cohort :: string
  row_totalUsers :: nat
  row_month1 :: jsnum
  row_month2 :: jsnum
  row_month3 :: jsnum
  row_month6 :: jsnum
  row_month12 :: jsnum

definition cohort_to_row :: "string \<times> cohort \<Rightarrow> cohort_row" where
  "cohort_to_row e =
     (case e of (name, data) \<Rightarrow>
        \<lparr> row_cohort = name,
          row_totalUsers = totalUsers data,
          row_month1 = percentage (month1 data) (totalUsers data),
          row_month2 = percentage (month2 data) (totalUsers data),
          row_month3 = percentage (month3 data) (totalUsers data),
          row_month6 = percentage (month6 data) (totalUsers data),
          row_month12 = percentage (month12 data) (totalUsers data) \<rparr>)"

definition cohorts_of :: "user list \<Rightarrow> order list \<Rightarrow> (string \<times> cohort) list" where
  "cohorts_of users orders = foldl (retention_step orders) [] users"

definition analyzeRetention :: "user list \<Rightarrow> order list \<Rightarrow> cohort_row list" where
  "analyzeRetention users orders = map cohort_to_row (cohorts_of users orders)"

section \<open>Forecast: \<^verbatim>\<open>generateForecastData\<close>\<close>





section \<open>Reading CSV back\<close>

text \<open>
  Modelled from the spec: the repository writes CSV but has no CSV reader, and the
  round-trip property speaks of parsing the export back. The reader below follows the
  spec's words, standard CSV quoting: fields are separated by commas and rows by
  newlines; a field that opens with a double quote runs to its closing quote, and inside
  it a doubled quote stands for one quote. It is a scanner over the characters with the
  field, the row and the rows read so far.
\<close>

datatype scan = Unquoted | Quoted | AfterQuote

fun csv_scan :: "scan \<Rightarrow> string \<Rightarrow> string list \<Rightarrow> string list list \<Rightarrow> string \<Rightarrow> string list list" where
  "csv_scan st field row rows [] = rows @ [row @ [field]]"
| "csv_scan Quoted field row rows (c # cs) =
     (if c = dquote then csv_scan AfterQuote field row rows cs
      else csv_scan Quoted (field @ [c]) row rows cs)"
| "csv_scan AfterQuote field row rows (c # cs) =
     (if c = dquote then csv_scan Quoted (field @ [dquote]) row rows cs
      else if c = comma then csv_scan Unquoted [] (row @ [field]) rows cs
      else if c = newline then csv_scan Unquoted [] [] (rows @ [row @ [field]]) cs
      else csv_scan Unquoted (field @ [c]) row rows cs)"
| "csv_scan Unquoted field row rows (c # cs) =
     (if c = dquote \<and> field = [] then csv_scan Quoted [] row rows cs
      else if c = comma then csv_scan Unquoted [] (row @ [field]) rows cs
      else if c = newline then csv_scan Unquoted [] [] (rows @ [row @ [field]]) cs
      else csv_scan Unquoted (field @ [c]) row rows cs)"

definition parse_csv :: "string \<Rightarrow> string list list" where
  "parse_csv s = csv_scan Unquoted [] [] [] s"

text \<open>
  Standard CSV quoting of one field, as the spec words it: internal quotes doubled, the
  field wrapped in quotes only when it contains a comma, a quote or a newline.
\<close>

definition csv_field :: "string \<Rightarrow> string" where
  "csv_field s = (if has_special s then [dquote] @ replace_quotes s @ [dquote] else s)"

text \<open>The field values of a record as the JSON export carries them, rendered as strings.\<close>

definition record_values :: "jsrecord \<Rightarrow> string list" where
  "record_values r = map (\<lambda>e. toString (snd e)) r"

section \<open>Notions the properties are stated with\<close>

text \<open>
  The customers with at least one order: the (truthy) user ids that occur on orders.
\<close>

definition customers :: "order list \<Rightarrow> string set" where
  "customers orders =
     set (concat (map (\<lambda>ord. case userId ord of None \<Rightarrow> []
                                | Some u \<Rightarrow> if u = [] then [] else [u]) orders))"

text \<open>
  The lifetime spend of a customer: the sum of \<^verbatim>\<open>total\<close> over the orders that carry the
  customer's id. \<open>spent_so_far\<close> reads an entry of the spending table, 0 when it is absent.
\<close>

definition lifetime_spend :: "order list \<Rightarrow> string \<Rightarrow> rat" where
  "lifetime_spend orders u =
     sum_list (map total_or_0 (filter (\<lambda>ord. userId ord = Some u) orders))"

definition spent_so_far :: "(string \<times> rat) list \<Rightarrow> string \<Rightarrow> rat" where
  "spent_so_far acc u = (case map_of acc u of None \<Rightarrow> 0 | Some s \<Rightarrow> s)"



text \<open>The comparison \<^verbatim>\<open><=\<close> on numbers, and finiteness (\<^verbatim>\<open>Number.isFinite\<close>).\<close>

definition js_le :: "jsnum \<Rightarrow> jsnum \<Rightarrow> bool" where
  "js_le a b =
     (case (a, b) of
        (NaN, _) \<Rightarrow> False
      | (_, NaN) \<Rightarrow> False
      | (NegInfinity, _) \<Rightarrow> True
      | (_, PosInfinity) \<Rightarrow> True
      | (Num x, Num y) \<Rightarrow> x \<le> y
      | _ \<Rightarrow> False)"

definition finite_num :: "jsnum \<Rightarrow> bool" where
  "finite_num a = (case a of Num x \<Rightarrow> True | _ \<Rightarrow> False)"

text \<open>
  The invariant of the cohort table while \<^verbatim>\<open>analyzeRetention\<close> runs: an entry has at
  least one user, and its horizon counters grow with the horizon.
\<close>

definition cohort_ok :: "cohort \<Rightarrow> bool" where
  "cohort_ok c = (1 \<le> totalUsers c \<and> month1 c \<le> month2 c \<and> month2 c \<le> month3 c
                  \<and> month3 c \<le> month6 c \<and> month6 c \<le> month12 c)"

section \<open>Example data\<close>

text \<open>
  A small store used to run the functions on concrete input. The report time is
  2024-04-01T19:33:20Z. Two users joined on the first two days of January 2024 and have
  one order each; a third joined 40 days before the report time and has none.
\<close>

definition example_now :: int where
  "example_now = 1712000000000"

definition example_users :: "user list" where
  "example_users =
     [\<lparr>user_id = ''user_a'', user_createdAt = Some 1704067200000, lastLogin = None\<rparr>,
      \<lparr>user_id = ''user_b'', user_createdAt = Some 1704153600000, lastLogin = None\<rparr>,
      \<lparr>user_id = ''user_c'', user_createdAt = Some 1708544000000, lastLogin = None\<rparr>]"

definition example_orders :: "order list" where
  "example_orders =
     [\<lparr>userId = Some ''user_a'', total = Some 100, status = ''delivered'',
        createdAt = Some 1710000000000, date = None\<rparr>,
      \<lparr>userId = Some ''user_b'', total = Some 250, status = ''pending'',
        createdAt = Some 1704200000000, date = None\<rparr>]"

text \<open>Ten customers with one order each, of totals 100 to 1000, in no particular order.\<close>

definition order_of :: "string \<times> rat \<Rightarrow> order" where
  "order_of e = \<lparr>userId = Some (fst e), total = Some (snd e), status = ''delivered'',
                  createdAt = Some 1710000000000, date = None\<rparr>"

definition ten_customers_orders :: "order list" where
  "ten_customers_orders =
     map order_of
       [(''user_03'', 800), (''user_01'', 1000), (''user_07'', 400), (''user_02'', 900),
        (''user_10'', 100), (''user_05'', 600), (''user_04'', 700), (''user_09'', 200),
        (''user_06'', 500), (''user_08'', 300)]"



section \<open>Properties of the file store\<close>

text \<open>
  C9 (as stated). The claim is that a failing read is propagated unmodified to the caller
  and that no default such as an empty collection is substituted. It fails: with a file
  system whose every read throws, \<^verbatim>\<open>readData('orders')\<close> does not raise the error;
  the caller receives the empty array.
\<close>

theorem readData_propagates_counterexample:
  "snd (readData ''data'' (\<lambda>p. Inl (SystemError ''ENOENT'')) (\<lambda>s. Inr [0::nat]) ''orders'')
     \<noteq> Inl (SystemError ''ENOENT'')
   \<and> snd (readData ''data'' (\<lambda>p. Inl (SystemError ''ENOENT'')) (\<lambda>s. Inr [0::nat]) ''orders'')
     = Inr []"
  by (simp add: readData_def DATA_FILES_def readFileSync_path_def)

text \<open>
  C9 (amended). \<^verbatim>\<open>readData\<close> wraps the read in \<^verbatim>\<open>try/catch\<close>: no exception ever leaves
  it. When the read fails, or the content does not parse, it logs the error once through
  \<^verbatim>\<open>console.error\<close> and returns the empty collection; in every case it attempts the read
  exactly once (no retry).
\<close>

theorem readData_failure_returns_empty:
  "(\<exists>v. snd (readData d rf jp name) = Inr v)
   \<and> (readFileSync_path rf (DATA_FILES d name) = Inl e \<longrightarrow>
        readData d rf jp name =
          ([ReadFileSync (DATA_FILES d name), ConsoleError name e], Inr []))
   \<and> (readFileSync_path rf (DATA_FILES d name) = Inr content \<and> jp content = Inl e \<longrightarrow>
        readData d rf jp name =
          ([ReadFileSync (DATA_FILES d name), ConsoleError name e], Inr []))
   \<and> length (filter (\<lambda>ev. case ev of ReadFileSync _ \<Rightarrow> True | _ \<Rightarrow> False)
         (fst (readData d rf jp name))) = 1"
  by (auto simp: readData_def Let_def split: sum.splits)

theorem readData_failure_returns_empty_witness:
  "readFileSync_path (\<lambda>p. Inl (SystemError ''ENOENT'')) (DATA_FILES ''data'' ''orders'')
     = Inl (SystemError ''ENOENT'')
   \<and> readData ''data'' (\<lambda>p. Inl (SystemError ''ENOENT'')) (\<lambda>s. Inr [0::nat]) ''orders''
     = ([ReadFileSync (Some ''data/orders.json''),
         ConsoleError ''orders'' (SystemError ''ENOENT'')], Inr [])"
proof -
  have h: "readFileSync_path (\<lambda>p. Inl (SystemError ''ENOENT'')) (DATA_FILES ''data'' ''orders'')
     = Inl (SystemError ''ENOENT'')"
    by (simp add: DATA_FILES_def readFileSync_path_def)
  have d: "DATA_FILES ''data'' ''orders'' = Some ''data/orders.json''"
    by (simp add: DATA_FILES_def)
  from readData_failure_returns_empty
    [of "''data''" "\<lambda>p. Inl (SystemError ''ENOENT'')" "\<lambda>s. Inr [0::nat]" "''orders''"
        "SystemError ''ENOENT''" "[]"] h d
  show ?thesis by simp
qed

section \<open>Properties of the CSV export\<close>

text \<open>
  C10. Called with an empty record list, \<^verbatim>\<open>convertToCSV\<close> returns the empty string:
  no header row, and no exception.
\<close>

theorem convertToCSV_empty:
  "convertToCSV (DataArray []) = Inr []"
  by (simp add: convertToCSV_def csv_of_records_def)


lemma has_special_replace: "has_special (replace_quotes s) = has_special s"
  by (induction s) (auto simp: has_special_def replace_quotes_def)

lemma replace_plain: "\<not> has_special s \<Longrightarrow> replace_quotes s = s"
  by (induction s) (auto simp: has_special_def replace_quotes_def)

lemma csv_value_eq:
  "csv_value v = (if has_special (toString v)
                  then [dquote] @ replace_quotes (toString v) @ [dquote] else toString v)"
  by (simp add: csv_value_def Let_def has_special_replace replace_plain)

lemma scan_plain:
  "\<not> has_special v \<Longrightarrow>
   csv_scan Unquoted field row rows (v @ rest) = csv_scan Unquoted (field @ v) row rows rest"
  by (induction v arbitrary: field) (auto simp: has_special_def)

lemma scan_quoted:
  "csv_scan Quoted field row rows (replace_quotes v @ dquote # rest)
     = csv_scan AfterQuote (field @ v) row rows rest"
  by (induction v arbitrary: field) (auto simp: replace_quotes_def)

lemma scan_field_end:
  "csv_scan Unquoted [] row rows (csv_field v) = rows @ [row @ [v]]"
proof (cases "has_special v")
  case True
  then show ?thesis
    using scan_quoted[of "[]" row rows v "[]"] by (simp add: csv_field_def)
next
  case False
  then show ?thesis
    using scan_plain[of v "[]" row rows "[]"] by (simp add: csv_field_def)
qed

lemma scan_field_comma:
  "csv_scan Unquoted [] row rows (csv_field v @ comma # rest)
     = csv_scan Unquoted [] (row @ [v]) rows rest"
proof (cases "has_special v")
  case True
  then show ?thesis
    using scan_quoted[of "[]" row rows v "comma # rest"] by (simp add: csv_field_def)
next
  case False
  then show ?thesis
    using scan_plain[of v "[]" row rows "comma # rest"] by (simp add: csv_field_def)
qed

lemma scan_field_newline:
  "csv_scan Unquoted [] row rows (csv_field v @ newline # rest)
     = csv_scan Unquoted [] [] (rows @ [row @ [v]]) rest"
proof (cases "has_special v")
  case True
  then show ?thesis
    using scan_quoted[of "[]" row rows v "newline # rest"] by (simp add: csv_field_def)
next
  case False
  then show ?thesis
    using scan_plain[of v "[]" row rows "newline # rest"] by (simp add: csv_field_def)
qed

lemma scan_line_end:
  "csv_scan Unquoted [] row rows (join [comma] (map csv_field (v # vs))) = rows @ [row @ v # vs]"
proof (induction vs arbitrary: v row)
  case Nil
  then show ?case by (simp add: scan_field_end)
next
  case (Cons w ws)
  from Cons[of "row @ [v]" w] show ?case by (simp add: scan_field_comma)
qed

lemma scan_line_newline:
  "csv_scan Unquoted [] row rows (join [comma] (map csv_field (v # vs)) @ newline # rest)
     = csv_scan Unquoted [] [] (rows @ [row @ v # vs]) rest"
proof (induction vs arbitrary: v row)
  case Nil
  then show ?case by (simp add: scan_field_newline)
next
  case (Cons w ws)
  from Cons[of "row @ [v]" w] show ?case by (simp add: scan_field_comma)
qed

lemma scan_lines:
  "\<forall>l \<in> set (l0 # ls). l \<noteq> [] \<Longrightarrow>
   csv_scan Unquoted [] [] rows (join [newline] (map (\<lambda>l. join [comma] (map csv_field l)) (l0 # ls)))
     = rows @ l0 # ls"
proof (induction ls arbitrary: l0 rows)
  case Nil
  then obtain v vs where "l0 = v # vs" by (cases l0) auto
  then show ?case using scan_line_end[of "[]" rows v vs] by simp
next
  case (Cons l1 ls)
  then obtain v vs where l0: "l0 = v # vs" by (cases l0) auto
  have "csv_scan Unquoted [] [] (rows @ [l0])
          (join [newline] (map (\<lambda>l. join [comma] (map csv_field l)) (l1 # ls)))
        = (rows @ [l0]) @ l1 # ls"
    using Cons.prems by (intro Cons.IH) simp
  then show ?case
    using scan_line_newline[of "[]" rows v vs] by (simp add: l0)
qed

lemma parse_lines:
  "\<forall>l \<in> set (l0 # ls). l \<noteq> [] \<Longrightarrow>
   parse_csv (join [newline] (map (\<lambda>l. join [comma] (map csv_field l)) (l0 # ls))) = l0 # ls"
  using scan_lines[of l0 ls "[]"] by (simp add: parse_csv_def)

lemma csv_value_field: "csv_value v = csv_field (toString v)"
  by (simp add: csv_value_eq csv_field_def)

lemma csv_field_plain: "\<not> has_special s \<Longrightarrow> csv_field s = s"
  by (simp add: csv_field_def)

lemma get_prop_own:
  "distinct (map fst r) \<Longrightarrow> map (get_prop r) (map fst r) = map snd r"
proof -
  assume d: "distinct (map fst r)"
  have "get_prop r (fst e) = snd e" if "e \<in> set r" for e
    using d that by (cases e) (simp add: get_prop_def)
  then show ?thesis by simp
qed

lemma csv_of_records_lines:
  assumes "data \<noteq> []"
  shows "csv_of_records data =
           join [newline] (join [comma] (Object_keys (hd data))
             # map (\<lambda>row. join [comma] (map (\<lambda>h. csv_field (toString (get_prop row h)))
                                           (Object_keys (hd data)))) data)"
  using assms
  by (cases data) (simp_all add: csv_of_records_def Let_def csv_row_def[abs_def] csv_value_field)

text \<open>
  A table: a non-empty list of records that all have the field names of the first, at
  least one, none with a comma, a quote or a newline. Its CSV is the lines of the header
  and of the records' values, and reads back as these.
\<close>

lemma csv_of_records_table:
  assumes "data \<noteq> []"
    and clean: "\<forall>h \<in> set (Object_keys (hd data)). \<not> has_special h"
    and same: "\<forall>r \<in> set data. Object_keys r = Object_keys (hd data) \<and> distinct (Object_keys r)"
  shows "csv_of_records data =
       join [newline] (map (\<lambda>l. join [comma] (map csv_field l))
                         (Object_keys (hd data) # map record_values data))"
proof -
  let ?hs = "Object_keys (hd data)"
  have h: "join [comma] ?hs = join [comma] (map csv_field ?hs)"
    using clean by (simp add: csv_field_plain cong: map_cong)
  have v: "map (\<lambda>h. csv_field (toString (get_prop row h))) ?hs
         = map csv_field (record_values row)" if "row \<in> set data" for row
  proof -
    from same that have k: "map fst row = ?hs" and d: "distinct (map fst row)"
      by (auto simp: Object_keys_def)
    have "map (\<lambda>h. csv_field (toString (get_prop row h))) ?hs
        = map (\<lambda>x. csv_field (toString x)) (map (get_prop row) (map fst row))"
      by (simp add: k)
    also have "\<dots> = map csv_field (record_values row)"
      unfolding get_prop_own[OF d] by (simp add: record_values_def)
    finally show ?thesis .
  qed
  show ?thesis
    unfolding csv_of_records_lines[OF assms(1)] h using v by (simp cong: map_cong)
qed

lemma parse_csv_table:
  assumes "data \<noteq> []" and ne: "Object_keys (hd data) \<noteq> []"
    and clean: "\<forall>h \<in> set (Object_keys (hd data)). \<not> has_special h"
    and same: "\<forall>r \<in> set data. Object_keys r = Object_keys (hd data) \<and> distinct (Object_keys r)"
  shows "parse_csv (csv_of_records data) = Object_keys (hd data) # map record_values data"
proof -
  have nonempty: "\<forall>l \<in> set (Object_keys (hd data) # map record_values data). l \<noteq> []"
    using ne same by (auto simp: record_values_def Object_keys_def)
  show ?thesis
    unfolding csv_of_records_table[OF assms(1) clean same] by (rule parse_lines[OF nonempty])
qed

text \<open>
  Hence the CSV of a table determines the table's header and values, whatever reader is
  used: two tables with the same CSV have the same field names and the same values.
\<close>

lemma csv_of_records_injective:
  assumes "data \<noteq> []" "Object_keys (hd data) \<noteq> []"
    "\<forall>h \<in> set (Object_keys (hd data)). \<not> has_special h"
    "\<forall>r \<in> set data. Object_keys r = Object_keys (hd data) \<and> distinct (Object_keys r)"
    and "data' \<noteq> []" "Object_keys (hd data') \<noteq> []"
    "\<forall>h \<in> set (Object_keys (hd data')). \<not> has_special h"
    "\<forall>r \<in> set data'. Object_keys r = Object_keys (hd data') \<and> distinct (Object_keys r)"
    and "csv_of_records data = csv_of_records data'"
  shows "Object_keys (hd data) = Object_keys (hd data')
       \<and> map record_values data = map record_values data'"
  using parse_csv_table[OF assms(1-4)] parse_csv_table[OF assms(5-8)] assms(9) by simp




section \<open>Properties of the cohort table\<close>

lemma update_cohort_cases:
  "e \<in> set (update_cohort k f cs) \<Longrightarrow>
     e \<in> set cs \<or> (\<exists>c. (k, c) \<in> set cs \<and> e = (k, f c))"
  by (induction cs) (auto split: if_splits)

lemma update_cohort_append_new:
  "map_of cs k = None \<Longrightarrow> update_cohort k f (cs @ [(k, c)]) = cs @ [(k, f c)]"
  by (induction cs) (auto split: if_splits)

lemma update_cohort_append_old:
  "map_of cs k \<noteq> None \<Longrightarrow> update_cohort k f (cs @ ds) = update_cohort k f cs @ ds"
  by (induction cs) (auto split: if_splits)

lemma months_le_mono: "months_le m j \<Longrightarrow> j \<le> k \<Longrightarrow> months_le m k"
  by (auto simp: months_le_def split: option.splits)

lemma counts_ok:
  assumes "cohort_ok c"
  shows "cohort_ok (c\<lparr> month1 := count_if (months_le m 1) (month1 c),
                            month2 := count_if (months_le m 2) (month2 c),
                            month3 := count_if (months_le m 3) (month3 c),
                            month6 := count_if (months_le m 6) (month6 c),
                            month12 := count_if (months_le m 12) (month12 c) \<rparr>)"
proof -
  have "months_le m 1 \<Longrightarrow> months_le m 2" "months_le m 2 \<Longrightarrow> months_le m 3"
    "months_le m 3 \<Longrightarrow> months_le m 6" "months_le m 6 \<Longrightarrow> months_le m 12"
    by (auto elim: months_le_mono)
  with assms show ?thesis
    by (auto simp: cohort_ok_def count_if_def)
qed

lemma retention_step_ok:
  assumes "\<forall>e \<in> set cs. cohort_ok (snd e)"
  shows "\<forall>e \<in> set (retention_step orders cs u). cohort_ok (snd e)"
proof -
  define key where "key = cohortKey (user_createdAt u)"
  define z where "z = \<lparr> totalUsers = 0, month1 = 0, month2 = 0,
                                             month3 = 0, month6 = 0, month12 = (0::nat) \<rparr>"
  define cs2 where "cs2 = update_cohort key (\<lambda>c. c\<lparr>totalUsers := totalUsers c + 1\<rparr>)
     (if map_of cs key = None then cs @ [(key, z)] else cs)"
  have ok2: "\<forall>e \<in> set cs2. cohort_ok (snd e)"
  proof (cases "map_of cs key = None")
    case True
    then have "cs2 = cs @ [(key, z\<lparr>totalUsers := totalUsers z + 1\<rparr>)]"
      by (simp add: cs2_def update_cohort_append_new)
    then show ?thesis using assms by (auto simp: z_def cohort_ok_def)
  next
    case False
    then have "cs2 = update_cohort key (\<lambda>c. c\<lparr>totalUsers := totalUsers c + 1\<rparr>) cs"
      by (auto simp: cs2_def)
    then show ?thesis using assms
      by (auto dest!: update_cohort_cases simp: cohort_ok_def)
  qed
  have ok3: "\<forall>e \<in> set (update_cohort key (\<lambda>c. c\<lparr> month1 := count_if (months_le m 1) (month1 c),
                            month2 := count_if (months_le m 2) (month2 c),
                            month3 := count_if (months_le m 3) (month3 c),
                            month6 := count_if (months_le m 6) (month6 c),
                            month12 := count_if (months_le m 12) (month12 c) \<rparr>) cs2). cohort_ok (snd e)" for m
  proof
    fix e assume "e \<in> set (update_cohort key (\<lambda>c. c\<lparr> month1 := count_if (months_le m 1) (month1 c),
                            month2 := count_if (months_le m 2) (month2 c),
                            month3 := count_if (months_le m 3) (month3 c),
                            month6 := count_if (months_le m 6) (month6 c),
                            month12 := count_if (months_le m 12) (month12 c) \<rparr>) cs2)"
    from update_cohort_cases[OF this] ok2 show "cohort_ok (snd e)"
      by (fastforce intro: counts_ok)
  qed
  have eq: "retention_step orders cs u =
     (case filter (\<lambda>ord. userId ord = Some (user_id u)) orders of
           [] \<Rightarrow> cs2
         | first # _ \<Rightarrow>
             update_cohort key
                   (\<lambda>c. c\<lparr> month1 := count_if (months_le (monthsSinceJoin (orderDate first) (user_createdAt u)) 1) (month1 c),
                            month2 := count_if (months_le (monthsSinceJoin (orderDate first) (user_createdAt u)) 2) (month2 c),
                            month3 := count_if (months_le (monthsSinceJoin (orderDate first) (user_createdAt u)) 3) (month3 c),
                            month6 := count_if (months_le (monthsSinceJoin (orderDate first) (user_createdAt u)) 6) (month6 c),
                            month12 := count_if (months_le (monthsSinceJoin (orderDate first) (user_createdAt u)) 12) (month12 c) \<rparr>) cs2)"
    unfolding retention_step_def Let_def key_def cs2_def z_def ..
  show ?thesis
    unfolding eq using ok2 ok3 by (simp split: list.split)
qed

lemma cohorts_fold_ok:
  "\<forall>e \<in> set cs. cohort_ok (snd e) \<Longrightarrow>
   \<forall>e \<in> set (foldl (retention_step orders) cs users). cohort_ok (snd e)"
proof (induction users arbitrary: cs)
  case Nil
  then show ?case by simp
next
  case (Cons u users)
  from Cons.IH[OF retention_step_ok[OF Cons.prems]] show ?case by simp
qed

lemma cohorts_of_ok: "e \<in> set (cohorts_of users orders) \<Longrightarrow> cohort_ok (snd e)"
  using cohorts_fold_ok[of "[]" orders users] by (simp add: cohorts_of_def)

lemma toFixed1_mono: "0 \<le> x \<Longrightarrow> x \<le> y \<Longrightarrow> toFixed1 x \<le> toFixed1 y"
  by (simp add: toFixed1_def divide_right_mono floor_mono)

lemma percentage_Num: "1 \<le> t \<Longrightarrow> percentage c t = Num (toFixed1 (of_nat c / of_nat t * 100))"
  by (simp add: percentage_def js_div_def)

lemma percentage_mono:
  assumes "1 \<le> t" "a \<le> b"
  shows "toFixed1 (of_nat a / of_nat t * 100) \<le> toFixed1 (of_nat b / of_nat t * 100)"
  using assms by (intro toFixed1_mono) (simp_all add: divide_right_mono)

lemma percentage_le:
  assumes "1 \<le> t" "a \<le> b"
  shows "js_le (percentage a t) (percentage b t)"
  using percentage_mono[OF assms] by (simp add: percentage_Num[OF assms(1)] js_le_def)

text \<open>
  C3. For every cohort row that \<^verbatim>\<open>analyzeRetention\<close> returns, the retention percentages
  do not decrease as the horizon grows: month1 \<open>\<le>\<close> month2 \<open>\<le>\<close> month3 \<open>\<le>\<close> month6 \<open>\<le>\<close>
  month12. (A user whose month delta is at most \<open>k\<close> is counted for every horizon from
  \<open>k\<close> on, division by the cohort size and rounding to one decimal are monotone.)
\<close>

theorem retention_monotone:
  "\<forall>row \<in> set (analyzeRetention users orders).
      js_le (row_month1 row) (row_month2 row) \<and> js_le (row_month2 row) (row_month3 row)
    \<and> js_le (row_month3 row) (row_month6 row) \<and> js_le (row_month6 row) (row_month12 row)"
proof
  fix row assume "row \<in> set (analyzeRetention users orders)"
  then obtain e where e: "e \<in> set (cohorts_of users orders)" and row: "row = cohort_to_row e"
    by (auto simp: analyzeRetention_def)
  obtain name c where nc: "e = (name, c)" by (cases e)
  from cohorts_of_ok[OF e] nc have ok: "cohort_ok c" by simp
  then have t: "1 \<le> totalUsers c" by (simp add: cohort_ok_def)
  from ok show "js_le (row_month1 row) (row_month2 row) \<and> js_le (row_month2 row) (row_month3 row)
    \<and> js_le (row_month3 row) (row_month6 row) \<and> js_le (row_month6 row) (row_month12 row)"
    by (simp add: row nc cohort_to_row_def percentage_le[OF t] cohort_ok_def)
qed

text \<open>
  C3, on the example store: the January cohort has two users, one converting within the
  first 30 days and one in the third month.
\<close>

theorem retention_monotone_witness:
  "analyzeRetention example_users example_orders =
     [\<lparr>row_cohort = ''2024-01'', row_totalUsers = 2, row_month1 = Num 50, row_month2 = Num 100,
        row_month3 = Num 100, row_month6 = Num 100, row_month12 = Num 100\<rparr>,
      \<lparr>row_cohort = ''2024-02'', row_totalUsers = 1, row_month1 = Num 0, row_month2 = Num 0,
        row_month3 = Num 0, row_month6 = Num 0, row_month12 = Num 0\<rparr>]
   \<and> js_le (row_month1 (hd (analyzeRetention example_users example_orders)))
           (row_month2 (hd (analyzeRetention example_users example_orders)))
   \<and> js_le (row_month6 (hd (analyzeRetention example_users example_orders)))
           (row_month12 (hd (analyzeRetention example_users example_orders)))"
proof -
  have rows: "analyzeRetention example_users example_orders =
     [\<lparr>row_cohort = ''2024-01'', row_totalUsers = 2, row_month1 = Num 50, row_month2 = Num 100,
        row_month3 = Num 100, row_month6 = Num 100, row_month12 = Num 100\<rparr>,
      \<lparr>row_cohort = ''2024-02'', row_totalUsers = 1, row_month1 = Num 0, row_month2 = Num 0,
        row_month3 = Num 0, row_month6 = Num 0, row_month12 = Num 0\<rparr>]"
    by code_simp
  have "hd (analyzeRetention example_users example_orders)
          \<in> set (analyzeRetention example_users example_orders)"
    by (simp add: rows)
  with retention_monotone[of example_users example_orders] rows show ?thesis
    by blast
qed

text \<open>
  C7. Every cohort row that \<^verbatim>\<open>analyzeRetention\<close> returns has \<open>totalUsers \<ge> 1\<close>, so none of
  the five divisions is by zero: all five percentages are finite numbers, never \<^verbatim>\<open>NaN\<close> or
  \<^verbatim>\<open>Infinity\<close>, whatever the users and orders.
\<close>

theorem retention_no_division_by_zero:
  "\<forall>row \<in> set (analyzeRetention users orders).
      1 \<le> row_totalUsers row
    \<and> finite_num (row_month1 row) \<and> finite_num (row_month2 row) \<and> finite_num (row_month3 row)
    \<and> finite_num (row_month6 row) \<and> finite_num (row_month12 row)"
proof
  fix row assume "row \<in> set (analyzeRetention users orders)"
  then obtain e where e: "e \<in> set (cohorts_of users orders)" and row: "row = cohort_to_row e"
    by (auto simp: analyzeRetention_def)
  obtain name c where nc: "e = (name, c)" by (cases e)
  from cohorts_of_ok[OF e] nc have t: "1 \<le> totalUsers c" by (simp add: cohort_ok_def)
  then show "1 \<le> row_totalUsers row
    \<and> finite_num (row_month1 row) \<and> finite_num (row_month2 row) \<and> finite_num (row_month3 row)
    \<and> finite_num (row_month6 row) \<and> finite_num (row_month12 row)"
    by (simp add: row nc cohort_to_row_def percentage_Num[OF t] finite_num_def)
qed

text \<open>
  C7, on the example store: the February cohort consists of one user without orders; its
  percentages are all 0, not \<^verbatim>\<open>NaN\<close>.
\<close>

theorem retention_no_division_by_zero_witness:
  "length (analyzeRetention example_users example_orders) = 2
   \<and> 1 \<le> row_totalUsers (analyzeRetention example_users example_orders ! 1)
   \<and> finite_num (row_month1 (analyzeRetention example_users example_orders ! 1))
   \<and> finite_num (row_month12 (analyzeRetention example_users example_orders ! 1))"
proof -
  have len: "length (analyzeRetention example_users example_orders) = 2"
    by code_simp
  then have "analyzeRetention example_users example_orders ! 1
          \<in> set (analyzeRetention example_users example_orders)"
    by simp
  with retention_no_division_by_zero[of example_users example_orders] len show ?thesis
    by blast
qed

section \<open>Properties of the segmentation\<close>

lemma set_insert_sorted: "set (insert_sorted P x ys) = insert x (set ys)"
  by (induction ys) auto

lemma length_insert_sorted: "length (insert_sorted P x ys) = Suc (length ys)"
  by (induction ys) auto

lemma distinct_insert_sorted:
  "distinct (map f ys) \<Longrightarrow> f x \<notin> f ` set ys \<Longrightarrow> distinct (map f (insert_sorted P x ys))"
  by (induction ys) (auto simp: set_insert_sorted)

lemma set_array_sort: "set (array_sort P xs) = set xs"
  by (induction xs) (auto simp: array_sort_def set_insert_sorted)

lemma length_array_sort: "length (array_sort P xs) = length xs"
  by (induction xs) (auto simp: array_sort_def length_insert_sorted)

lemma distinct_array_sort:
  "distinct (map f xs) \<Longrightarrow> distinct (map f (array_sort P xs))"
proof (induction xs)
  case Nil
  then show ?case by (simp add: array_sort_def)
next
  case (Cons x xs)
  then have "distinct (map f (array_sort P xs))" "f x \<notin> f ` set (array_sort P xs)"
    by (auto simp: set_array_sort)
  then have "distinct (map f (insert_sorted P x (array_sort P xs)))"
    by (rule distinct_insert_sorted)
  then show ?case by (simp add: array_sort_def)
qed

lemma sorted_insert_sorted:
  "sorted_wrt (\<lambda>a b. snd b \<le> (snd a :: rat)) ys \<Longrightarrow>
   sorted_wrt (\<lambda>a b. snd b \<le> snd a) (insert_sorted (\<lambda>x y. snd y < snd x) x ys)"
  by (induction ys) (auto simp: set_insert_sorted)

lemma sorted_array_sort:
  "sorted_wrt (\<lambda>a b. snd b \<le> (snd a :: rat)) (array_sort (\<lambda>x y. snd y - snd x < 0) xs)"
proof (induction xs)
  case Nil
  then show ?case by (simp add: array_sort_def)
next
  case (Cons x xs)
  then have "sorted_wrt (\<lambda>a b. snd b \<le> snd a) (array_sort (\<lambda>x y. snd y < snd x) xs)"
    by simp
  from sorted_insert_sorted[OF this, of x] show ?case
    by (simp add: array_sort_def)
qed

lemma fst_add_spending:
  "fst ` set (add_spending k v cs) = insert k (fst ` set cs)"
proof -
  have "map fst (add_spending k v cs)
          = (if k \<in> fst ` set cs then map fst cs else map fst cs @ [k])"
    by (induction cs) force+
  then have "set (map fst (add_spending k v cs)) = insert k (set (map fst cs))"
    by (simp split: if_splits) blast
  then show ?thesis by simp
qed

lemma distinct_add_spending:
  "distinct (map fst cs) \<Longrightarrow> distinct (map fst (add_spending k v cs))"
proof (induction cs)
  case Nil
  then show ?case by simp
next
  case (Cons c cs)
  obtain k' s where c: "c = (k', s)" by (cases c)
  from Cons show ?case
    using fst_add_spending[of k v cs] by (auto simp: c)
qed

lemma spending_fold:
  "distinct (map fst acc) \<Longrightarrow>
   distinct (map fst (foldl spend_step acc orders))
   \<and> fst ` set (foldl spend_step acc orders) = fst ` set acc \<union> customers orders"
proof (induction orders arbitrary: acc)
  case Nil
  then show ?case by (simp add: customers_def)
next
  case (Cons a orders)
  have d: "distinct (map fst (spend_step acc a))"
    using Cons.prems by (auto simp: spend_step_def distinct_add_spending split: option.splits)
  have k: "fst ` set (spend_step acc a) = fst ` set acc \<union> customers [a]"
    by (auto simp: spend_step_def customers_def fst_add_spending split: option.splits)
  have c: "customers (a # orders) = customers [a] \<union> customers orders"
    by (auto simp: customers_def)
  from Cons.IH[OF d] k c show ?case by (simp add: Un_assoc)
qed

lemma customerSpending_keys:
  "distinct (map fst (customerSpending orders))"
  "fst ` set (customerSpending orders) = customers orders"
  using spending_fold[of "[]" orders]
  unfolding customerSpending_def by simp_all

lemma sortedCustomers_distinct: "distinct (sortedCustomers orders)"
  unfolding sortedCustomers_def by (rule distinct_array_sort) (rule customerSpending_keys)

lemma sortedCustomers_set: "set (sortedCustomers orders) = customers orders"
  by (simp add: sortedCustomers_def set_array_sort customerSpending_keys)

lemma sortedCustomers_length: "length (sortedCustomers orders) = card (customers orders)"
  using distinct_card[OF sortedCustomers_distinct, of orders]
  by (simp add: sortedCustomers_set)

lemma recency_step_tiers:
  "highValue (recency_step now orders segs u) = highValue segs"
  "mediumValue (recency_step now orders segs u) = mediumValue segs"
  "lowValue (recency_step now orders segs u) = lowValue segs"
  by (simp_all add: recency_step_def Let_def split: option.split)

lemma customer_segments_tiers:
  "highValue (foldl (recency_step now orders) segs users) = highValue segs"
  "mediumValue (foldl (recency_step now orders) segs users) = mediumValue segs"
  "lowValue (foldl (recency_step now orders) segs users) = lowValue segs"
  by (induction users arbitrary: segs) (simp_all add: recency_step_tiers)

lemma tiers_eq:
  "highValue (customer_segments now users orders) = take (highValueCount orders) (sortedCustomers orders)"
  "mediumValue (customer_segments now users orders)
     = take (mediumValueCount orders) (drop (highValueCount orders) (sortedCustomers orders))"
  "lowValue (customer_segments now users orders)
     = drop (mediumValueCount orders) (drop (highValueCount orders) (sortedCustomers orders))"
  by (simp_all add: customer_segments_def customer_segments_tiers spend_segments_def slice_def
      slice_from_def add.commute)

lemma tiers_disjoint:
  assumes "distinct xs"
  shows "set (take h xs) \<inter> set (take m (drop h xs)) = {}"
    "set (take h xs) \<inter> set (drop m (drop h xs)) = {}"
    "set (take m (drop h xs)) \<inter> set (drop m (drop h xs)) = {}"
proof -
  have d: "distinct (drop h xs)" using assms by simp
  have "set (take h xs) \<inter> set (drop h xs) = {}"
    using assms by (simp add: set_take_disj_set_drop_if_distinct)
  moreover have "set (take m (drop h xs)) \<subseteq> set (drop h xs)" by (rule set_take_subset)
  moreover have "set (drop m (drop h xs)) \<subseteq> set (drop h xs)" by (rule set_drop_subset)
  ultimately show "set (take h xs) \<inter> set (take m (drop h xs)) = {}"
    "set (take h xs) \<inter> set (drop m (drop h xs)) = {}" by blast+
  show "set (take m (drop h xs)) \<inter> set (drop m (drop h xs)) = {}"
    using set_take_disj_set_drop_if_distinct[OF d, of m m] by (simp del: drop_drop)
qed

lemma top_tier_above_rest:
  fixes ps :: "(string \<times> rat) list"
  assumes sorted: "sorted_wrt (\<lambda>a b. snd b \<le> snd a) ps"
    and dk: "distinct (map fst ps)" and dv: "distinct (map snd ps)"
    and u: "(u, su) \<in> set ps" "u \<in> set (map fst (take h ps))"
    and v: "(v, sv) \<in> set ps" "v \<notin> set (map fst (take h ps))"
  shows "sv < su"
proof -
  from u(2) obtain s' where s': "(u, s') \<in> set (take h ps)" by auto
  then have "(u, s') \<in> set ps" by (rule in_set_takeD)
  with dk u(1) have "s' = su" by (metis eq_key_imp_eq_value)
  with s' have ut: "(u, su) \<in> set (take h ps)" by simp
  have "set ps = set (take h ps) \<union> set (drop h ps)"
    by (metis append_take_drop_id set_append)
  with v have vd: "(v, sv) \<in> set (drop h ps)" by force
  from sorted have "sorted_wrt (\<lambda>a b. snd b \<le> snd a) (take h ps @ drop h ps)" by simp
  with ut vd have le: "sv \<le> su" unfolding sorted_wrt_append by fastforce
  from u(2) v(2) have "u \<noteq> v" by auto
  moreover from dv have "inj_on snd (set ps)" by (simp add: distinct_map)
  ultimately have "su \<noteq> sv"
    using u(1) v(1) inj_onD[of snd "set ps" "(u, su)" "(v, sv)"] by auto
  with le show ?thesis by simp
qed

lemma tiers_length:
  "length (take h xs) + length (take m (drop h xs)) + length (drop m (drop h xs)) = length xs"
  by simp


lemma tiers_by_entries:
  "set (highValue (customer_segments now users orders))
      \<inter> set (mediumValue (customer_segments now users orders)) = {}
   \<and> set (highValue (customer_segments now users orders))
      \<inter> set (lowValue (customer_segments now users orders)) = {}
   \<and> set (mediumValue (customer_segments now users orders))
      \<inter> set (lowValue (customer_segments now users orders)) = {}
   \<and> length (highValue (customer_segments now users orders))
       + length (mediumValue (customer_segments now users orders))
       + length (lowValue (customer_segments now users orders)) = card (customers orders)
   \<and> (length (customerSpending orders) = 10 \<and> distinct (map snd (customerSpending orders))
        \<longrightarrow> length (highValue (customer_segments now users orders)) = 2
          \<and> (\<forall>(u, su) \<in> set (customerSpending orders).
               \<forall>(v, sv) \<in> set (customerSpending orders).
                 u \<in> set (highValue (customer_segments now users orders))
                 \<and> v \<notin> set (highValue (customer_segments now users orders))
                 \<longrightarrow> sv < su))"
proof -
  let ?xs = "sortedCustomers orders"
  let ?h = "highValueCount orders" and ?m = "mediumValueCount orders"
  let ?ps = "array_sort (\<lambda>x y. snd y - snd x < 0) (customerSpending orders)"
  have d: "distinct ?xs" by (rule sortedCustomers_distinct)
  have disj: "set (take ?h ?xs) \<inter> set (take ?m (drop ?h ?xs)) = {}"
    "set (take ?h ?xs) \<inter> set (drop ?m (drop ?h ?xs)) = {}"
    "set (take ?m (drop ?h ?xs)) \<inter> set (drop ?m (drop ?h ?xs)) = {}"
    using tiers_disjoint[OF d] by blast+
  have len: "length (take ?h ?xs) + length (take ?m (drop ?h ?xs))
      + length (drop ?m (drop ?h ?xs)) = card (customers orders)"
    unfolding tiers_length by (rule sortedCustomers_length)
  have top: "length (take ?h ?xs) = 2
          \<and> (\<forall>(u, su) \<in> set (customerSpending orders).
               \<forall>(v, sv) \<in> set (customerSpending orders).
                 u \<in> set (take ?h ?xs) \<and> v \<notin> set (take ?h ?xs) \<longrightarrow> sv < su)"
    if ten: "length (customerSpending orders) = 10"
      and dv: "distinct (map snd (customerSpending orders))"
  proof -
    have n: "length ?xs = 10" by (simp add: sortedCustomers_def length_array_sort ten)
    then have h: "?h = 2" by (simp add: highValueCount_def)
    have hx: "take ?h ?xs = map fst (take ?h ?ps)"
      by (simp add: sortedCustomers_def take_map)
    have "sv < su" if "(u, su) \<in> set (customerSpending orders)"
      "(v, sv) \<in> set (customerSpending orders)"
      "u \<in> set (take ?h ?xs)" "v \<notin> set (take ?h ?xs)" for u su v sv
    proof (rule top_tier_above_rest[of ?ps u su ?h v sv])
      show "sorted_wrt (\<lambda>a b. snd b \<le> snd a) ?ps" by (rule sorted_array_sort)
      show "distinct (map fst ?ps)" by (rule distinct_array_sort) (rule customerSpending_keys)
      show "distinct (map snd ?ps)" by (rule distinct_array_sort) (rule dv)
      show "(u, su) \<in> set ?ps" "(v, sv) \<in> set ?ps" using that by (simp_all add: set_array_sort)
      show "u \<in> set (map fst (take ?h ?ps))" "v \<notin> set (map fst (take ?h ?ps))"
        using that unfolding hx by blast+
    qed
    then show ?thesis using n h by auto
  qed
  show ?thesis
    unfolding tiers_eq using disj len top by blast
qed

lemma map_of_add_spending:
  "map_of (add_spending k v cs) = (map_of cs)(k \<mapsto> spent_so_far cs k + v)"
  by (induction cs) (auto simp: spent_so_far_def fun_eq_iff)

lemma spent_spend_step:
  "u \<noteq> [] \<Longrightarrow>
   spent_so_far (spend_step acc ord) u
     = spent_so_far acc u + (if userId ord = Some u then total_or_0 ord else 0)"
  by (auto simp: spend_step_def spent_so_far_def map_of_add_spending split: option.splits)

lemma spent_fold:
  "u \<noteq> [] \<Longrightarrow>
   spent_so_far (foldl spend_step acc orders) u = spent_so_far acc u + lifetime_spend orders u"
proof (induction orders arbitrary: acc)
  case Nil
  then show ?case by (simp add: lifetime_spend_def)
next
  case (Cons a orders)
  then show ?case by (simp add: spent_spend_step lifetime_spend_def)
qed

lemma customerSpending_lifetime:
  assumes "(u, s) \<in> set (customerSpending orders)"
  shows "s = lifetime_spend orders u"
proof -
  have d: "distinct (map fst (customerSpending orders))" by (rule customerSpending_keys)
  from assms have "u \<in> fst ` set (customerSpending orders)" by force
  then have "u \<in> customers orders" by (simp add: customerSpending_keys)
  then have ne: "u \<noteq> []" by (auto simp: customers_def split: option.splits if_splits)
  from d assms have "map_of (customerSpending orders) u = Some s" by simp
  then have "spent_so_far (customerSpending orders) u = s" by (simp add: spent_so_far_def)
  moreover have "spent_so_far (customerSpending orders) u = lifetime_spend orders u"
    using spent_fold[OF ne, of "[]" orders] by (simp add: customerSpending_def spent_so_far_def)
  ultimately show ?thesis by simp
qed

lemma customerSpending_entries:
  "set (customerSpending orders) = (\<lambda>u. (u, lifetime_spend orders u)) ` customers orders"
proof -
  have "e \<in> (\<lambda>u. (u, lifetime_spend orders u)) ` customers orders"
    if "e \<in> set (customerSpending orders)" for e
  proof -
    obtain u s where e: "e = (u, s)" by (cases e)
    with that have "s = lifetime_spend orders u" by (simp add: customerSpending_lifetime)
    moreover from that e have "u \<in> customers orders"
      using customerSpending_keys(2)[of orders] by force
    ultimately show ?thesis using e by simp
  qed
  moreover have "(u, lifetime_spend orders u) \<in> set (customerSpending orders)"
    if "u \<in> customers orders" for u
  proof -
    from that obtain s where "(u, s) \<in> set (customerSpending orders)"
      using customerSpending_keys(2)[of orders] by force
    then show ?thesis using customerSpending_lifetime by blast
  qed
  ultimately show ?thesis by blast
qed

lemma customerSpending_distinct_spends:
  assumes "inj_on (lifetime_spend orders) (customers orders)"
  shows "distinct (map snd (customerSpending orders))"
proof -
  have d: "distinct (customerSpending orders)"
    using customerSpending_keys(1)[of orders] by (rule distinct_map[THEN iffD1, THEN conjunct1])
  have "inj_on snd (set (customerSpending orders))"
    unfolding customerSpending_entries using assms by (auto simp: inj_on_def)
  with d show ?thesis by (simp add: distinct_map)
qed

text \<open>
  C2. The high-, medium- and low-value membership lists are pairwise disjoint, and their
  sizes add up to the number of distinct customers with at least one order. With ten
  customers of pairwise distinct lifetime spends exactly two are high value, and each of
  the two has spent more than every customer outside the tier: the cut is by rank, not by
  amount. (\<^verbatim>\<open>Math.ceil(n * 0.2)\<close> and \<^verbatim>\<open>Math.ceil(n * 0.6)\<close> are taken in exact
  arithmetic; the floating-point products round to the same ceilings.)
\<close>

theorem spend_tiers_partition:
  "set (highValue (customer_segments now users orders))
      \<inter> set (mediumValue (customer_segments now users orders)) = {}
   \<and> set (highValue (customer_segments now users orders))
      \<inter> set (lowValue (customer_segments now users orders)) = {}
   \<and> set (mediumValue (customer_segments now users orders))
      \<inter> set (lowValue (customer_segments now users orders)) = {}
   \<and> length (highValue (customer_segments now users orders))
       + length (mediumValue (customer_segments now users orders))
       + length (lowValue (customer_segments now users orders)) = card (customers orders)
   \<and> (card (customers orders) = 10 \<and> inj_on (lifetime_spend orders) (customers orders)
        \<longrightarrow> length (highValue (customer_segments now users orders)) = 2
          \<and> set (highValue (customer_segments now users orders)) \<subseteq> customers orders
          \<and> (\<forall>u \<in> set (highValue (customer_segments now users orders)).
               \<forall>v \<in> customers orders - set (highValue (customer_segments now users orders)).
                 lifetime_spend orders v < lifetime_spend orders u))"
proof -
  have top: "length (highValue (customer_segments now users orders)) = 2
          \<and> set (highValue (customer_segments now users orders)) \<subseteq> customers orders
          \<and> (\<forall>u \<in> set (highValue (customer_segments now users orders)).
               \<forall>v \<in> customers orders - set (highValue (customer_segments now users orders)).
                 lifetime_spend orders v < lifetime_spend orders u)"
    if ten: "card (customers orders) = 10"
      and inj: "inj_on (lifetime_spend orders) (customers orders)"
  proof -
    have len: "length (customerSpending orders) = 10"
      using ten sortedCustomers_length[of orders]
      by (simp add: sortedCustomers_def length_array_sort)
    have dv: "distinct (map snd (customerSpending orders))"
      using inj by (rule customerSpending_distinct_spends)
    from tiers_by_entries[of now users orders] len dv
    have two: "length (highValue (customer_segments now users orders)) = 2"
      and above: "\<forall>(u, su) \<in> set (customerSpending orders).
               \<forall>(v, sv) \<in> set (customerSpending orders).
                 u \<in> set (highValue (customer_segments now users orders))
                 \<and> v \<notin> set (highValue (customer_segments now users orders))
                 \<longrightarrow> sv < su"
      by blast+
    have sub: "set (highValue (customer_segments now users orders)) \<subseteq> customers orders"
      unfolding tiers_eq using sortedCustomers_set[of orders] by (auto dest: in_set_takeD)
    have "lifetime_spend orders v < lifetime_spend orders u"
      if "u \<in> set (highValue (customer_segments now users orders))"
        "v \<in> customers orders" "v \<notin> set (highValue (customer_segments now users orders))"
      for u v
    proof -
      from that(1) sub have "(u, lifetime_spend orders u) \<in> set (customerSpending orders)"
        unfolding customerSpending_entries by blast
      moreover from that(2) have "(v, lifetime_spend orders v) \<in> set (customerSpending orders)"
        unfolding customerSpending_entries by blast
      ultimately show ?thesis using above that(1,3) by fastforce
    qed
    with two sub show ?thesis by blast
  qed
  from tiers_by_entries[of now users orders] top show ?thesis by blast
qed

text \<open>
  C2, on the ten customers with spends 100 to 1000: the two high-value customers are the
  ones who spent 1000 and 900.
\<close>

theorem spend_tiers_partition_witness:
  "card (customers ten_customers_orders) = 10
   \<and> highValue (customer_segments example_now example_users ten_customers_orders)
       = [''user_01'', ''user_02'']
   \<and> lifetime_spend ten_customers_orders ''user_03''
       < lifetime_spend ten_customers_orders ''user_02''
   \<and> length (highValue (customer_segments example_now example_users ten_customers_orders))
       + length (mediumValue (customer_segments example_now example_users ten_customers_orders))
       + length (lowValue (customer_segments example_now example_users ten_customers_orders))
       = card (customers ten_customers_orders)"
proof -
  have c: "customers ten_customers_orders
     = set [''user_03'', ''user_01'', ''user_07'', ''user_02'', ''user_10'', ''user_05'',
            ''user_04'', ''user_09'', ''user_06'', ''user_08'']"
    by (simp add: customers_def ten_customers_orders_def order_of_def)
  have ten: "card (customers ten_customers_orders) = 10"
    unfolding c by (simp add: card_insert_if)
  have "distinct (map (lifetime_spend ten_customers_orders)
     [''user_03'', ''user_01'', ''user_07'', ''user_02'', ''user_10'', ''user_05'',
            ''user_04'', ''user_09'', ''user_06'', ''user_08''])"
    by (simp add: lifetime_spend_def ten_customers_orders_def order_of_def total_or_0_def)
  then have inj: "inj_on (lifetime_spend ten_customers_orders) (customers ten_customers_orders)"
    unfolding c by (simp only: distinct_map)
  have e: "highValue (customer_segments example_now example_users ten_customers_orders)
       = [''user_01'', ''user_02'']"
    by code_simp
  have m: "''user_03'' \<in> customers ten_customers_orders" unfolding c by simp
  from spend_tiers_partition[of example_now example_users ten_customers_orders] ten inj e m
  show ?thesis by simp
qed

lemma recency_step_members:
  "x \<in> set (newUsers (recency_step now orders segs v)) \<Longrightarrow>
     x \<in> set (newUsers segs)
     \<or> (user_id v = x \<and> date_ge (user_createdAt v) (Some (now - days_ms 30)))"
  "x \<in> set (atRisk (recency_step now orders segs v)) \<Longrightarrow>
     x \<in> set (atRisk segs) \<or> (user_id v = x \<and> lastOrder orders v \<noteq> None)"
  "x \<in> set (dormant (recency_step now orders segs v)) \<Longrightarrow>
     x \<in> set (dormant segs) \<or> (user_id v = x \<and> lastOrder orders v \<noteq> None)"
  by (auto simp: recency_step_def Let_def split: option.splits if_splits)

lemma recency_fold_members:
  "x \<in> set (newUsers (foldl (recency_step now orders) segs us)) \<Longrightarrow>
     x \<in> set (newUsers segs)
     \<or> (\<exists>v \<in> set us. user_id v = x \<and> date_ge (user_createdAt v) (Some (now - days_ms 30)))"
  "x \<in> set (atRisk (foldl (recency_step now orders) segs us)) \<Longrightarrow>
     x \<in> set (atRisk segs) \<or> (\<exists>v \<in> set us. user_id v = x \<and> lastOrder orders v \<noteq> None)"
  "x \<in> set (dormant (foldl (recency_step now orders) segs us)) \<Longrightarrow>
     x \<in> set (dormant segs) \<or> (\<exists>v \<in> set us. user_id v = x \<and> lastOrder orders v \<noteq> None)"
proof (induction us arbitrary: segs)
  case Nil
  { case 1 then show ?case by simp }
  { case 2 then show ?case by simp }
  { case 3 then show ?case by simp }
next
  case (Cons a us)
  { case 1
    from Cons.IH(1)[of "recency_step now orders segs a"] 1
    show ?case by (auto dest: recency_step_members(1)) }
  { case 2
    from Cons.IH(2)[of "recency_step now orders segs a"] 2
    show ?case by (auto dest: recency_step_members(2)) }
  { case 3
    from Cons.IH(3)[of "recency_step now orders segs a"] 3
    show ?case by (auto dest: recency_step_members(3)) }
qed

lemma lastOrder_None:
  "\<forall>ord \<in> set orders. userId ord \<noteq> Some (user_id u) \<Longrightarrow> lastOrder orders u = None"
proof -
  assume "\<forall>ord \<in> set orders. userId ord \<noteq> Some (user_id u)"
  then have "filter (\<lambda>ord. userId ord = Some (user_id u)) orders = []"
    by (simp add: filter_empty_conv)
  then show ?thesis by (simp add: lastOrder_def array_sort_def)
qed

lemma no_orders_not_customer:
  "\<forall>ord \<in> set orders. userId ord \<noteq> Some (user_id u) \<Longrightarrow> user_id u \<notin> customers orders"
  by (auto simp: customers_def split: option.splits if_splits)

text \<open>
  C8. A user without orders who joined more than 30 days before \<open>now\<close> is put in no
  segment: the user's round of the recency pass leaves all lists as they are, and the
  user's id is in none of new, atRisk, dormant, nor in a spend tier (user ids being
  unique). The function is total, so the computation completes.
\<close>

theorem zero_order_user_in_no_segment:
  assumes "u \<in> set users" and "distinct (map user_id users)"
    and "\<forall>ord \<in> set orders. userId ord \<noteq> Some (user_id u)"
    and "user_createdAt u = Some joined" and "joined < now - days_ms 30"
  shows "recency_step now orders segs u = segs
    \<and> user_id u \<notin> set (newUsers (customer_segments now users orders))
    \<and> user_id u \<notin> set (atRisk (customer_segments now users orders))
    \<and> user_id u \<notin> set (dormant (customer_segments now users orders))
    \<and> user_id u \<notin> set (highValue (customer_segments now users orders))
    \<and> user_id u \<notin> set (mediumValue (customer_segments now users orders))
    \<and> user_id u \<notin> set (lowValue (customer_segments now users orders))"
proof -
  have lo: "lastOrder orders u = None" using assms(3) by (rule lastOrder_None)
  have nn: "\<not> date_ge (user_createdAt u) (Some (now - days_ms 30))"
    using assms(4,5) by (simp add: date_ge_def)
  have same: "v = u" if "v \<in> set users" "user_id v = user_id u" for v
    using that assms(1,2) by (meson distinct_map inj_onD)
  have step: "recency_step now orders segs u = segs"
    using lo nn by (simp add: recency_step_def Let_def)
  have new: "user_id u \<notin> set (newUsers (customer_segments now users orders))"
  proof
    assume "user_id u \<in> set (newUsers (customer_segments now users orders))"
    from recency_fold_members(1)[OF this[unfolded customer_segments_def]]
    show False using same nn by (fastforce simp: spend_segments_def)
  qed
  have risk: "user_id u \<notin> set (atRisk (customer_segments now users orders))"
  proof
    assume "user_id u \<in> set (atRisk (customer_segments now users orders))"
    from recency_fold_members(2)[OF this[unfolded customer_segments_def]]
    show False using same lo by (fastforce simp: spend_segments_def)
  qed
  have dorm: "user_id u \<notin> set (dormant (customer_segments now users orders))"
  proof
    assume "user_id u \<in> set (dormant (customer_segments now users orders))"
    from recency_fold_members(3)[OF this[unfolded customer_segments_def]]
    show False using same lo by (fastforce simp: spend_segments_def)
  qed
  have nc: "user_id u \<notin> set (sortedCustomers orders)"
    using no_orders_not_customer[OF assms(3)] by (simp add: sortedCustomers_set)
  have tiers: "user_id u \<notin> set (highValue (customer_segments now users orders))"
    "user_id u \<notin> set (mediumValue (customer_segments now users orders))"
    "user_id u \<notin> set (lowValue (customer_segments now users orders))"
    using nc unfolding tiers_eq by (auto dest: in_set_takeD in_set_dropD)
  show ?thesis using step new risk dorm tiers by simp
qed

text \<open>
  C8, on the example store: \<^verbatim>\<open>user_c\<close> joined 40 days before the report time and has no
  orders.
\<close>

theorem zero_order_user_in_no_segment_witness:
  "customer_segments example_now example_users example_orders
     = \<lparr>highValue = [''user_b''], mediumValue = [''user_a''], lowValue = [],
        newUsers = [], atRisk = [''user_b''], dormant = []\<rparr>
   \<and> ''user_c'' \<notin> set (newUsers (customer_segments example_now example_users example_orders))
   \<and> ''user_c'' \<notin> set (atRisk (customer_segments example_now example_users example_orders))
   \<and> ''user_c'' \<notin> set (dormant (customer_segments example_now example_users example_orders))
   \<and> ''user_c'' \<notin> set (highValue (customer_segments example_now example_users example_orders))
   \<and> ''user_c'' \<notin> set (mediumValue (customer_segments example_now example_users example_orders))
   \<and> ''user_c'' \<notin> set (lowValue (customer_segments example_now example_users example_orders))"
proof -
  let ?u = "\<lparr>user_id = ''user_c'', user_createdAt = Some 1708544000000, lastLogin = None\<rparr>"
  have 1: "?u \<in> set example_users" by (simp add: example_users_def)
  have 2: "distinct (map user_id example_users)" by (simp add: example_users_def)
  have 3: "\<forall>ord \<in> set example_orders. userId ord \<noteq> Some (user_id ?u)"
    by (simp add: example_orders_def)
  have 4: "user_createdAt ?u = Some 1708544000000" by simp
  have 5: "(1708544000000::int) < example_now - days_ms 30"
    by (simp add: example_now_def days_ms_def)
  have e: "customer_segments example_now example_users example_orders
     = \<lparr>highValue = [''user_b''], mediumValue = [''user_a''], lowValue = [],
        newUsers = [], atRisk = [''user_b''], dormant = []\<rparr>"
    by code_simp
  from zero_order_user_in_no_segment[OF 1 2 3 4 5, of "spend_segments example_orders"] e
  show ?thesis by simp
qed

section \<open>Properties of the forecast\<close>





section \<open>Properties of the calendar\<close>












section \<open>Properties of the trend buckets\<close>





lemma pointStart_Some: "\<exists>t. pointStart period (Some s) i = Some t"
  by (simp add: pointStart_def addDays_def addMonths_def)




lemma date_le_refl_iff: "date_le a a \<longleftrightarrow> a \<noteq> None"
  by (auto simp: date_le_def split: option.splits)














section \<open>Properties of the averages\<close>

text \<open>
  The helper used by the analytics dashboard guards on the number of matching orders, so
  it never divides by zero: without a delivered order in range both figures are 0.
\<close>

lemma calculateAverageOrderValue_finite:
  "finite_num (calculateAverageOrderValue orders start end)"
  by (simp add: calculateAverageOrderValue_def Let_def js_div_def finite_num_def)

lemma dashboard_kpis_no_delivered:
  assumes "filter (\<lambda>order. date_ge (orderDate order) start \<and> date_le (orderDate order) end
                             \<and> status order = ''delivered'') orders = []"
  shows "totalRevenue (dashboard_kpis orders start end) = 0
       \<and> avgOrderValue (dashboard_kpis orders start end) = Num 0"
  using assms
  by (simp add: dashboard_kpis_def calculateTotalRevenue_def calculateAverageOrderValue_def)

lemma stats_avgOrderValue_no_orders: "stats_avgOrderValue [] = Num 0"
  by (simp add: stats_avgOrderValue_def)

text \<open>
  The handler of the admin dashboard stats guards on the number of all orders instead:
  as soon as there are orders and none of them is delivered, its average is \<^verbatim>\<open>NaN\<close>.
\<close>

lemma stats_avgOrderValue_no_delivered:
  assumes "orders \<noteq> []" and "filter (\<lambda>order. status order = ''delivered'') orders = []"
  shows "stats_avgOrderValue orders = NaN"
  using assms by (simp add: stats_avgOrderValue_def stats_totalRevenue_def js_div_def)

text \<open>
  C4. The average over zero delivered orders is meant to be 0 everywhere. The dashboard
  helper \<^verbatim>\<open>calculateAverageOrderValue\<close> returns 0, but the admin dashboard-stats handler
  guards on \<^verbatim>\<open>orders.length > 0\<close> and then divides by the number of delivered orders:
  with a single pending order it computes \<^verbatim>\<open>0 / 0\<close>, which is \<^verbatim>\<open>NaN\<close>.
\<close>

theorem stats_avgOrderValue_pending_only:
  "stats_avgOrderValue
     [\<lparr>userId = Some ''user_b'', total = Some 250, status = ''pending'',
        createdAt = Some 1704200000000, date = None\<rparr>] = NaN
   \<and> calculateAverageOrderValue
     [\<lparr>userId = Some ''user_b'', total = Some 250, status = ''pending'',
        createdAt = Some 1704200000000, date = None\<rparr>] (Some 0) (Some 1712000000000) = Num 0"
  by (simp add: stats_avgOrderValue_def stats_totalRevenue_def js_div_def
      calculateAverageOrderValue_def)

end
